theory Spec2Isabelle
  imports
    Main
    "HOL-Library.Sublist"
    "HOL-Library.Multiset"
    "HOL-Library.Char_ord"
    "HOL-Library.List_Lexorder"
begin

section \<open>Text primitives\<close>

text \<open>
  Text is modelled as \<^typ>\<open>string\<close>, a list of 8-bit characters. \<open>str.strip()\<close> removes
  the ASCII white space of Python (\<open>\t \n \v \f \r\<close>, the separators \<open>0x1C\<close> to
  \<open>0x1F\<close> and the blank) from both ends; \<open>str.lower()\<close> folds the letters \<open>A\<close> to
  \<open>Z\<close>. Characters outside ASCII are left as they are by both.
\<close>

definition is_space :: "char \<Rightarrow> bool" where
  "is_space c = (c \<in> set [CHR '' '', CHR 0x09, CHR 0x0A, CHR 0x0B, CHR 0x0C, CHR 0x0D,
                           CHR 0x1C, CHR 0x1D, CHR 0x1E, CHR 0x1F])"

definition strip :: "string \<Rightarrow> string" where
  "strip s = rev (dropWhile is_space (rev (dropWhile is_space s)))"

definition lower_char :: "char \<Rightarrow> char" where
  "lower_char c =
     (case map_of (zip ''ABCDEFGHIJKLMNOPQRSTUVWXYZ'' ''abcdefghijklmnopqrstuvwxyz'') c of
        Some d \<Rightarrow> d
      | None \<Rightarrow> c)"

definition lower :: "string \<Rightarrow> string" where
  "lower s = map lower_char s"

text \<open>The expression \<open>s.lower() if case_insensitive else s\<close>, written out at every use in the source.\<close>

definition case_key :: "bool \<Rightarrow> string \<Rightarrow> string" where
  "case_key case_insensitive s = (if case_insensitive then lower s else s)"

definition startswith_hash :: "string \<Rightarrow> bool" where
  "startswith_hash s = (case s of [] \<Rightarrow> False | c # _ \<Rightarrow> c = CHR ''#'')"

section \<open>Files, the csv reader and \<open>DictReader\<close>\<close>

text \<open>
  A file is what the tools read from it: its physical lines (what \<open>for line in f\<close> yields,
  each with its line terminator) and
  the records \<open>csv.reader\<close> yields for the dialect the caller opens it with (the sniffed
  delimiter for an input CSV, the default dialect for a key file). The parser itself is the
  standard library's, so its result is part of the input; \<open>csv_error\<close> says that the parser
  raises \<open>csv.Error\<close> once the records have been delivered. A file system maps a path to
  the file found there. The output file is a separate value (the records written so far), so
  the input and the output path are taken to name different files.
\<close>

record csv_file =
  file_lines :: "string list"
  records :: "string list list"
  csv_error :: bool

type_synonym filesystem = "string \<rightharpoonup> csv_file"

datatype value_error =
    MissingColumn string "string list option"
  | MissingPlantColumn string "string list option"
  | ColumnNotFound string "string list"

datatype error = FileNotFoundError string | ValueError value_error | CsvError | KeyError string

text \<open>
  A \<open>DictReader\<close> row: field name to cell, where a name of the header beyond the end of a
  short record holds \<open>None\<close> (the \<open>restval\<close>). The surplus cells of a long record sit under
  the key \<open>None\<close>, which no lookup by name reaches, and are left out.
\<close>

type_synonym row = "string \<rightharpoonup> string option"

definition fieldnames :: "csv_file \<Rightarrow> string list option" where
  "fieldnames f = (case records f of [] \<Rightarrow> None | h # _ \<Rightarrow> Some h)"

text \<open>\<open>reader.fieldnames or []\<close>.\<close>

definition header_fields :: "csv_file \<Rightarrow> string list" where
  "header_fields f = (case fieldnames f of None \<Rightarrow> [] | Some h \<Rightarrow> h)"

text \<open>The parser raises on the read of the header: there is no record before the error.\<close>

definition header_raises :: "csv_file \<Rightarrow> bool" where
  "header_raises f = (records f = [] \<and> csv_error f)"

text \<open>\<open>dict(zip(fieldnames, row))\<close>, then \<open>restval\<close> for the names left: a later name wins.\<close>

definition make_row :: "string list \<Rightarrow> string list \<Rightarrow> row" where
  "make_row fns cells =
     map_of (rev (zip fns (map Some cells @ replicate (length fns - length cells) None)))"

text \<open>The rows a \<open>DictReader\<close> yields after the header: empty records are skipped.\<close>

definition dict_rows :: "csv_file \<Rightarrow> row list" where
  "dict_rows f =
     (case records f of
        [] \<Rightarrow> []
      | h # rest \<Rightarrow> map (make_row h) (filter (\<lambda>r. r \<noteq> []) rest))"

text \<open>
  \<open>row.get(k) or ""\<close>; also the cell \<open>DictWriter\<close> writes for \<open>row.get(k, "")\<close>, since
  it writes \<open>None\<close> as the empty string.
\<close>

definition get_or_empty :: "row \<Rightarrow> string \<Rightarrow> string" where
  "get_or_empty row k = (case row k of Some (Some v) \<Rightarrow> v | _ \<Rightarrow> [])"

text \<open>Python's truth value of an optional string, set or list.\<close>

definition truthy_str :: "string option \<Rightarrow> bool" where
  "truthy_str s = (case s of None \<Rightarrow> False | Some v \<Rightarrow> v \<noteq> [])"

definition truthy_set :: "string set option \<Rightarrow> bool" where
  "truthy_set s = (case s of None \<Rightarrow> False | Some v \<Rightarrow> v \<noteq> {})"

definition truthy_list :: "'a list option \<Rightarrow> bool" where
  "truthy_list s = (case s of None \<Rightarrow> False | Some v \<Rightarrow> v \<noteq> [])"

section \<open>The row filter: \<open>stream_filter_csv\<close>\<close>

text \<open>The value of \<open>is_match\<close> at the end of the loop body, for one row.\<close>

definition is_match_row ::
  "string \<Rightarrow> string set \<Rightarrow> string option \<Rightarrow> string set option \<Rightarrow> bool \<Rightarrow> row \<Rightarrow> bool" where
  "is_match_row article_col match_values plant_col plant_values case_insensitive row =
     (let raw_val = strip (get_or_empty row article_col);
          key = case_key case_insensitive raw_val;
          is_match = (if key \<noteq> [] then key \<in> match_values else False)
      in if is_match \<and> plant_values \<noteq> None \<and> truthy_str plant_col then
           (let plant_raw = strip (get_or_empty row (the plant_col));
                plant_key = case_key case_insensitive plant_raw
            in if plant_key \<noteq> [] then plant_key \<in> the plant_values else False)
         else is_match)"

definition keep_row :: "bool \<Rightarrow> bool \<Rightarrow> bool" where
  "keep_row invert is_match = (if invert then \<not> is_match else is_match)"

text \<open>The record written for a kept row: \<open>{k: row.get(k, "") for k in out_fields}\<close>.\<close>

definition project_row :: "string list \<Rightarrow> row \<Rightarrow> string list" where
  "project_row out_fields row = map (get_or_empty row) out_fields"

text \<open>
  The loop over the rows. The state is the output file (the records written so far) and the
  counter \<open>written\<close>.
\<close>

fun write_rows ::
  "(row \<Rightarrow> bool) \<Rightarrow> string list \<Rightarrow> row list \<Rightarrow> string list list \<times> nat \<Rightarrow> string list list \<times> nat" where
  "write_rows keep out_fields [] (out, written) = (out, written)"
| "write_rows keep out_fields (row # rows) (out, written) =
     (if keep row
      then write_rows keep out_fields rows (out @ [project_row out_fields row], written + 1)
      else write_rows keep out_fields rows (out, written))"

text \<open>
  The result is what the call returns or raises, and the output file: \<open>None\<close> when it was
  never opened, else the records written to it (the header record first). The file is opened,
  and so emptied, before the header of the input is looked at.
\<close>

definition stream_filter_csv ::
  "filesystem \<Rightarrow> string \<Rightarrow> string \<Rightarrow> string set \<Rightarrow> string option \<Rightarrow> string set option \<Rightarrow>
   string list option \<Rightarrow> bool \<Rightarrow> bool \<Rightarrow> (error + nat) \<times> string list list option" where
  "stream_filter_csv fs input_csv article_col match_values plant_col plant_values
     select_columns case_insensitive invert =
     (case fs input_csv of
        None \<Rightarrow> (Inl (FileNotFoundError input_csv), None)
      | Some f \<Rightarrow>
          if header_raises f then (Inl CsvError, Some [])
          else
            let fns = header_fields f in
            if article_col \<notin> set fns then
              (Inl (ValueError (MissingColumn article_col (fieldnames f))), Some [])
            else if truthy_set plant_values \<and> truthy_str plant_col \<and> the plant_col \<notin> set fns then
              (Inl (ValueError (MissingPlantColumn (the plant_col) (fieldnames f))), Some [])
            else
              let out_fields =
                    (if truthy_list select_columns \<and> select_columns \<noteq> Some [''*'']
                     then the select_columns else fns);
                  keep = (\<lambda>row. keep_row invert
                            (is_match_row article_col match_values plant_col plant_values
                               case_insensitive row));
                  (out, written) = write_rows keep out_fields (dict_rows f) ([out_fields], 0)
              in (if csv_error f then Inl CsvError else Inr written, Some out))"

section \<open>The key-set builder: \<open>read_sku_list\<close>\<close>

text \<open>The body of the loops that add a literal or a cell of the hint column.\<close>

definition add_value :: "bool \<Rightarrow> string \<Rightarrow> string set \<Rightarrow> string set" where
  "add_value case_insensitive v values =
     (let s = strip v in
      if s \<noteq> [] then insert (case_key case_insensitive s) values else values)"

text \<open>The body of the two line-oriented loops.\<close>

definition add_line :: "bool \<Rightarrow> string \<Rightarrow> string set \<Rightarrow> string set" where
  "add_line case_insensitive line values =
     (let s = strip line in
      if s \<noteq> [] \<and> \<not> startswith_hash s then insert (case_key case_insensitive s) values
      else values)"

text \<open>
  \<open>csv.Error\<close> is caught: at the header, or after the rows the reader delivered, whose values
  are in the set by then. Either way the lines of the whole file are read after \<open>f.seek(0)\<close>.
\<close>

definition read_sku_list ::
  "filesystem \<Rightarrow> string list option \<Rightarrow> string option \<Rightarrow> string \<Rightarrow> bool \<Rightarrow> error + string set" where
  "read_sku_list fs sku_values sku_file sku_file_column case_insensitive =
     (let values = (if truthy_list sku_values
                    then fold (add_value case_insensitive) (the sku_values) {} else {})
      in if truthy_str sku_file then
           (case fs (the sku_file) of
              None \<Rightarrow> Inl (FileNotFoundError (the sku_file))
            | Some f \<Rightarrow>
                if header_raises f then Inr (fold (add_line case_insensitive) (file_lines f) values)
                else if truthy_list (fieldnames f) \<and> sku_file_column \<in> set (the (fieldnames f)) then
                  (let values' = fold (\<lambda>row. add_value case_insensitive
                                          (get_or_empty row sku_file_column)) (dict_rows f) values
                   in if csv_error f
                      then Inr (fold (add_line case_insensitive) (file_lines f) values')
                      else Inr values')
                else Inr (fold (add_line case_insensitive) (file_lines f) values))
         else Inr values)"

section \<open>The uniqueness extractor: \<open>read_unique_values\<close>\<close>

text \<open>The three tables of the accumulation pass.\<close>

record acc =
  counts :: "string \<rightharpoonup> int"
  order :: "string list"
  display :: "string \<rightharpoonup> string"

definition empty_acc :: acc where
  "empty_acc = \<lparr>counts = Map.empty, order = [], display = Map.empty\<rparr>"

text \<open>
  The body of the three loops, from the cell on (\<open>row[0] or ""\<close>, \<open>row.get(col) or ""\<close>).
  After the \<open>if\<close> the key is in \<open>counts\<close>, so \<open>counts[key] += 1\<close> finds it.
\<close>

definition count_value :: "bool \<Rightarrow> string \<Rightarrow> acc \<Rightarrow> acc" where
  "count_value case_insensitive cell st =
     (let val = strip cell in
      if val = [] then st
      else
        let key = case_key case_insensitive val;
            st1 = (if counts st key = None
                   then st\<lparr>order := order st @ [key],
                           display := (display st)(key \<mapsto> val),
                           counts := (counts st)(key \<mapsto> 0)\<rparr>
                   else st)
        in st1\<lparr>counts := (counts st1)(key \<mapsto> the (counts st1 key) + 1)\<rparr>)"

definition accumulate :: "bool \<Rightarrow> string list \<Rightarrow> acc" where
  "accumulate case_insensitive cells = fold (count_value case_insensitive) cells empty_acc"

text \<open>The cells a loop over \<open>csv.reader\<close> visits: the first one of every non-empty record.\<close>

definition first_cells :: "string list list \<Rightarrow> string list" where
  "first_cells recs = map hd (filter (\<lambda>r. r \<noteq> []) recs)"

text \<open>
  The cells the pass visits, or the error raised before it starts. With a header expected and
  none found (an empty file) the source reads the file again with a plain reader.
\<close>

definition target_cells :: "csv_file \<Rightarrow> string option \<Rightarrow> bool \<Rightarrow> error + string list" where
  "target_cells f column no_header =
     (if \<not> no_header then
        if header_raises f then Inl CsvError
        else
          (case fieldnames f of
             None \<Rightarrow> Inr (first_cells (records f))
           | Some fns \<Rightarrow>
               let col = (if truthy_str column then the column
                          else if fns \<noteq> [] then hd fns else ''value'')
               in if col \<notin> set fns then Inl (ValueError (ColumnNotFound col fns))
                  else Inr (map (\<lambda>row. get_or_empty row col) (dict_rows f)))
      else Inr (first_cells (records f)))"

text \<open>\<open>[display[k] for k in ks]\<close>: a key without an entry raises \<open>KeyError\<close>.\<close>

fun display_values :: "(string \<rightharpoonup> string) \<Rightarrow> string list \<Rightarrow> error + string list" where
  "display_values d [] = Inr []"
| "display_values d (k # ks) =
     (case d k of
        None \<Rightarrow> Inl (KeyError k)
      | Some v \<Rightarrow> (case display_values d ks of Inl e \<Rightarrow> Inl e | Inr vs \<Rightarrow> Inr (v # vs)))"

text \<open>\<open>counts.get(k, 0)\<close>.\<close>

definition count_of :: "acc \<Rightarrow> string \<Rightarrow> int" where
  "count_of st k = (case counts st k of None \<Rightarrow> 0 | Some n \<Rightarrow> n)"

text \<open>The selection and the sort after the pass; \<open>sorted\<close> is stable, as \<^const>\<open>sort_key\<close> is.\<close>

definition select_values :: "acc \<Rightarrow> bool \<Rightarrow> bool \<Rightarrow> bool \<Rightarrow> error + string list" where
  "select_values st case_insensitive sort_values exactly_once =
     (case display_values (display st)
             (if exactly_once then filter (\<lambda>k. count_of st k = 1) (order st) else order st) of
        Inl e \<Rightarrow> Inl e
      | Inr values \<Rightarrow>
          Inr (if sort_values then sort_key (case_key case_insensitive) values else values))"

definition read_unique_values ::
  "filesystem \<Rightarrow> string \<Rightarrow> string option \<Rightarrow> bool \<Rightarrow> bool \<Rightarrow> bool \<Rightarrow> bool \<Rightarrow> error + string list" where
  "read_unique_values fs input_csv column no_header case_insensitive sort_values exactly_once =
     (case fs input_csv of
        None \<Rightarrow> Inl (FileNotFoundError input_csv)
      | Some f \<Rightarrow>
          (case target_cells f column no_header of
             Inl e \<Rightarrow> Inl e
           | Inr cells \<Rightarrow>
               if csv_error f then Inl CsvError
               else select_values (accumulate case_insensitive cells)
                      case_insensitive sort_values exactly_once))"

text \<open>
  The invariant of the three tables: the order list holds every key once, its keys are the keys
  of both tables, and every count is at least 1.
\<close>

definition acc_invariant :: "acc \<Rightarrow> bool" where
  "acc_invariant st =
     (distinct (order st) \<and> set (order st) = dom (counts st) \<and> set (order st) = dom (display st) \<and>
      (\<forall>k n. counts st k = Some n \<longrightarrow> 1 \<le> n))"

section \<open>The filter tool: \<open>main\<close>\<close>

text \<open>The parsed command line (\<open>argparse\<close> is not modelled), with the defaults filled in.\<close>

record args =
  input_csv :: string
  output_csv :: string
  csv_article_column :: string
  csv_plant_column :: string
  sku :: "string list option"
  sku_file :: "string option"
  sku_file_column :: string
  columns :: string
  case_insensitive :: bool
  invert :: bool
  plant :: "string list option"

text \<open>What the tool prints, by kind, in place of the formatted text.\<close>

datatype message = NoCriteria | Wrote nat string | ErrorMessage error

record run =
  exit_code :: int
  stdout :: "message list"
  stderr :: "message list"
  output_file :: "string list list option"

text \<open>\<open>str.split(d)\<close> for a separator of one character.\<close>

fun split_on :: "char \<Rightarrow> string \<Rightarrow> string list" where
  "split_on d [] = [[]]"
| "split_on d (c # cs) =
     (if c = d then [] # split_on d cs
      else (case split_on d cs of p # ps \<Rightarrow> (c # p) # ps | [] \<Rightarrow> [[c]]))"

text \<open>\<open>set(... for p in args.plant if p and p.strip()) or None\<close>, under \<open>if args.plant\<close>.\<close>

definition plant_values_of :: "bool \<Rightarrow> string list option \<Rightarrow> string set option" where
  "plant_values_of ci plant_arg =
     (if truthy_list plant_arg then
        (let s = set (map (\<lambda>p. case_key ci (strip p))
                   (filter (\<lambda>p. p \<noteq> [] \<and> strip p \<noteq> []) (the plant_arg)))
         in if s = {} then None else Some s)
      else None)"

text \<open>The list \<open>cols\<close> of \<open>main\<close>, and the \<open>select_columns\<close> it passes on.\<close>

definition select_columns_of :: "string \<Rightarrow> string list option" where
  "select_columns_of cs =
     (let cols = (if cs \<noteq> [] then map strip (split_on CHR '','' cs) else [''*''])
      in if cols = [''*''] then None else Some cols)"

definition main :: "filesystem \<Rightarrow> args \<Rightarrow> run" where
  "main fs a =
     (case read_sku_list fs (sku a) (sku_file a) (sku_file_column a) (case_insensitive a) of
        Inl e \<Rightarrow> \<lparr>exit_code = 1, stdout = [], stderr = [ErrorMessage e], output_file = None\<rparr>
      | Inr match_values \<Rightarrow>
          if match_values = {} then
            \<lparr>exit_code = 2, stdout = [], stderr = [NoCriteria], output_file = None\<rparr>
          else
            (let plant_values = plant_values_of (case_insensitive a) (plant a);
                (r, out) = stream_filter_csv fs (input_csv a) (csv_article_column a) match_values
                             (Some (csv_plant_column a)) plant_values
                             (select_columns_of (columns a))
                             (case_insensitive a) (invert a)
            in (case r of
                  Inl e \<Rightarrow>
                    \<lparr>exit_code = 1, stdout = [], stderr = [ErrorMessage e], output_file = out\<rparr>
                | Inr written \<Rightarrow>
                    \<lparr>exit_code = 0, stdout = [Wrote written (output_csv a)], stderr = [],
                     output_file = out\<rparr>)))"

section \<open>Reading an output file, and the scenarios of the specification\<close>

text \<open>The header record and the data records of an output file.\<close>

definition header_record :: "string list list option \<Rightarrow> string list" where
  "header_record out = (case out of Some (h # recs) \<Rightarrow> h | _ \<Rightarrow> [])"

definition data_records :: "string list list option \<Rightarrow> string list list" where
  "data_records out = (case out of Some (h # recs) \<Rightarrow> recs | _ \<Rightarrow> [])"

text \<open>The input of scenarios A, B and C: three rows under the header \<open>article,plant,qty\<close>.\<close>

definition scenario_csv :: csv_file where
  "scenario_csv =
     \<lparr>file_lines = [''article,plant,qty\<newline>'', ''SKU1,SYD,5\<newline>'',
                    ''SKU2,MEL,3\<newline>'', ''SKU1,MEL,2\<newline>''],
      records = [[''article'', ''plant'', ''qty''], [''SKU1'', ''SYD'', ''5''],
                 [''SKU2'', ''MEL'', ''3''], [''SKU1'', ''MEL'', ''2'']],
      csv_error = False\<rparr>"

definition scenario_fs :: filesystem where
  "scenario_fs = [''in.csv'' \<mapsto> scenario_csv]"

text \<open>The command line of scenario A: \<open>--input-csv in.csv --output-csv out.csv --sku SKU1\<close>.\<close>

definition scenario_args :: args where
  "scenario_args =
     \<lparr>input_csv = ''in.csv'', output_csv = ''out.csv'', csv_article_column = ''article'',
      csv_plant_column = ''plant'', sku = Some [''SKU1''], sku_file = None,
      sku_file_column = ''article'', columns = ''*'', case_insensitive = False, invert = False,
      plant = None\<rparr>"

text \<open>A file whose second column has no name in the header.\<close>

definition unnamed_column_csv :: csv_file where
  "unnamed_column_csv =
     \<lparr>file_lines = [''article,,qty\<newline>'', ''SKU1,SYD,5\<newline>'', ''SKU1,MEL,2\<newline>''],
      records = [[''article'', [], ''qty''], [''SKU1'', ''SYD'', ''5''], [''SKU1'', ''MEL'', ''2'']],
      csv_error = False\<rparr>"




definition scenario_e_csv :: csv_file where
  "scenario_e_csv =
     \<lparr>file_lines = [''value\<newline>'', ''B\<newline>'', ''a\<newline>'', ''b\<newline>''],
      records = [[''value''], [''B''], [''a''], [''b'']],
      csv_error = False\<rparr>"

section \<open>Properties of the row filter\<close>

lemma write_rows_eq:
  "write_rows keep out_fields rows (out, written) =
     (out @ map (project_row out_fields) (filter keep rows), written + length (filter keep rows))"
  by (induction rows arbitrary: out written) simp_all

text \<open>A call that returns has passed both checks of the header; a call that passes them returns.\<close>

lemma stream_filter_csv_success:
  assumes "fs path = Some f"
    and "stream_filter_csv fs path article_col match_values plant_col plant_values
           select_columns ci inverted = (Inr n, out)"
  shows "\<not> csv_error f \<and> article_col \<in> set (header_fields f) \<and>
         \<not> (truthy_set plant_values \<and> truthy_str plant_col \<and>
              the plant_col \<notin> set (header_fields f))"
  using assms
  by (auto simp: stream_filter_csv_def Let_def split: if_splits prod.splits)

lemma stream_filter_csv_run:
  assumes "fs path = Some f" "\<not> csv_error f"
    and "article_col \<in> set (header_fields f)"
    and "\<not> (truthy_set plant_values \<and> truthy_str plant_col \<and>
              the plant_col \<notin> set (header_fields f))"
  shows "\<exists>hdr. \<forall>inverted.
           stream_filter_csv fs path article_col match_values plant_col plant_values
             select_columns ci inverted =
           (Inr (length (filter (\<lambda>row. keep_row inverted (is_match_row article_col match_values
                    plant_col plant_values ci row)) (dict_rows f))),
            Some (hdr # map (project_row hdr) (filter (\<lambda>row. keep_row inverted
                    (is_match_row article_col match_values plant_col plant_values ci row))
                    (dict_rows f))))"
  using assms
  by (auto simp: stream_filter_csv_def Let_def write_rows_eq header_raises_def
      split: if_splits prod.splits)

text \<open>Whatever the outcome, the output file is empty or holds a header and the kept rows.\<close>

lemma stream_filter_csv_cases:
  assumes "fs path = Some f"
    and "stream_filter_csv fs path article_col match_values plant_col plant_values
           select_columns ci inverted = (r, out)"
  shows "(out = Some [] \<and> (\<exists>e. r = Inl e)) \<or>
         (\<exists>hdr. out = Some (hdr # map (project_row hdr)
             (filter (\<lambda>row. keep_row inverted (is_match_row article_col match_values plant_col
                 plant_values ci row)) (dict_rows f))) \<and>
            (r = Inl CsvError \<or>
             r = Inr (length (filter (\<lambda>row. keep_row inverted (is_match_row article_col
                 match_values plant_col plant_values ci row)) (dict_rows f)))))"
  using assms
  by (auto simp: stream_filter_csv_def write_rows_eq Let_def split: if_splits)

text \<open>
  Claim C1. When the filter returns without \<open>invert\<close>, it returns with \<open>invert\<close> on the same
  input and configuration, and the two runs split the rows of the input: the first writes,
  in order, exactly the rows that match, the second exactly the rows that do not, under the
  same header, so that every row is written by one run and by no other, and the two counts
  add up to the number of rows.
\<close>

theorem invert_partitions_rows:
  assumes "fs path = Some f"
    and "stream_filter_csv fs path article_col match_values plant_col plant_values
           select_columns ci False = (Inr n1, out1)"
  shows "\<exists>hdr n2.
           stream_filter_csv fs path article_col match_values plant_col plant_values
             select_columns ci True =
             (Inr n2, Some (hdr # map (project_row hdr)
                (filter (\<lambda>row. \<not> is_match_row article_col match_values plant_col plant_values ci row)
                   (dict_rows f)))) \<and>
           out1 = Some (hdr # map (project_row hdr)
                (filter (is_match_row article_col match_values plant_col plant_values ci)
                   (dict_rows f))) \<and>
           n1 = length (filter (is_match_row article_col match_values plant_col plant_values ci)
                   (dict_rows f)) \<and>
           n2 = length (filter (\<lambda>row. \<not> is_match_row article_col match_values plant_col
                   plant_values ci row) (dict_rows f)) \<and>
           n1 + n2 = length (dict_rows f)"
proof -
  let ?M = "is_match_row article_col match_values plant_col plant_values ci"
  note ok = stream_filter_csv_success [OF assms]
  from stream_filter_csv_run [of fs path f article_col plant_values plant_col match_values
      select_columns ci] assms(1) ok
  obtain hdr where run: "\<And>inverted. stream_filter_csv fs path article_col match_values plant_col
      plant_values select_columns ci inverted =
      (Inr (length (filter (\<lambda>row. keep_row inverted (?M row)) (dict_rows f))),
       Some (hdr # map (project_row hdr) (filter (\<lambda>row. keep_row inverted (?M row)) (dict_rows f))))"
    by blast
  have f: "(\<lambda>row. keep_row False (?M row)) = ?M"
    and t: "(\<lambda>row. keep_row True (?M row)) = (\<lambda>row. \<not> ?M row)"
    by (simp_all add: keep_row_def)
  from run [of False] assms(2) have 1: "n1 = length (filter ?M (dict_rows f))"
    "out1 = Some (hdr # map (project_row hdr) (filter ?M (dict_rows f)))"
    by (simp_all add: f)
  from run [of True] have 2: "stream_filter_csv fs path article_col match_values plant_col
      plant_values select_columns ci True =
      (Inr (length (filter (\<lambda>row. \<not> ?M row) (dict_rows f))),
       Some (hdr # map (project_row hdr) (filter (\<lambda>row. \<not> ?M row) (dict_rows f))))"
    by (simp add: t)
  have 3: "length (filter ?M (dict_rows f)) + length (filter (\<lambda>row. \<not> ?M row) (dict_rows f)) =
      length (dict_rows f)"
    by (rule sum_length_filter_compl)
  from 1 2 3 show ?thesis by blast
qed

text \<open>Scenarios A and C: the key \<open>SKU1\<close> keeps rows 1 and 3, its inversion keeps row 2.\<close>

theorem invert_partitions_rows_witness:
  "stream_filter_csv scenario_fs ''in.csv'' ''article'' {''SKU1''} (Some ''plant'') None None
       False True =
     (Inr 1, Some [[''article'', ''plant'', ''qty''], [''SKU2'', ''MEL'', ''3'']]) \<and>
   stream_filter_csv scenario_fs ''in.csv'' ''article'' {''SKU1''} (Some ''plant'') None None
       False False =
     (Inr 2, Some [[''article'', ''plant'', ''qty''], [''SKU1'', ''SYD'', ''5''],
                   [''SKU1'', ''MEL'', ''2'']])"
proof -
  have h1: "scenario_fs ''in.csv'' = Some scenario_csv"
    by (simp add: scenario_fs_def)
  have h2: "stream_filter_csv scenario_fs ''in.csv'' ''article'' {''SKU1''} (Some ''plant'') None
       None False False =
     (Inr 2, Some [[''article'', ''plant'', ''qty''], [''SKU1'', ''SYD'', ''5''],
                   [''SKU1'', ''MEL'', ''2'']])"
    by code_simp
  from invert_partitions_rows [OF h1 h2] obtain hdr n2 where
    a: "stream_filter_csv scenario_fs ''in.csv'' ''article'' {''SKU1''} (Some ''plant'') None None
          False True =
        (Inr n2, Some (hdr # map (project_row hdr)
           (filter (\<lambda>row. \<not> is_match_row ''article'' {''SKU1''} (Some ''plant'') None False row)
              (dict_rows scenario_csv))))"
    and b: "Some [[''article'', ''plant'', ''qty''], [''SKU1'', ''SYD'', ''5''],
                  [''SKU1'', ''MEL'', ''2'']] =
       Some (hdr # map (project_row hdr)
                (filter (is_match_row ''article'' {''SKU1''} (Some ''plant'') None False)
                   (dict_rows scenario_csv)))"
    and c: "n2 = length (filter (\<lambda>row. \<not> is_match_row ''article'' {''SKU1''} (Some ''plant'')
                   None False row) (dict_rows scenario_csv))"
    and d: "2 + n2 = length (dict_rows scenario_csv)"
    by (elim exE conjE)
  have len: "length (dict_rows scenario_csv) = 3"
    by (simp add: dict_rows_def scenario_csv_def)
  from d len have n2: "n2 = 1" by simp
  from b have hdr: "hdr = [''article'', ''plant'', ''qty'']" by simp
  have rows: "map (project_row [''article'', ''plant'', ''qty''])
                (filter (\<lambda>row. \<not> is_match_row ''article'' {''SKU1''} (Some ''plant'') None False row)
                   (dict_rows scenario_csv)) = [[''SKU2'', ''MEL'', ''3'']]"
    by code_simp
  from a n2 hdr rows h2 show ?thesis by simp
qed

text \<open>
  Claim C2. Without \<open>invert\<close>, whatever the call returns or raises, the data records of the
  output file are the projections of a subsequence of the input rows, in the order of the
  input; a returned count is the length of that subsequence, so at most the number of input
  rows.
\<close>

theorem filter_output_is_subsequence:
  assumes "fs path = Some f"
    and "stream_filter_csv fs path article_col match_values plant_col plant_values
           select_columns ci False = (r, out)"
  shows "\<exists>ys. subseq ys (dict_rows f) \<and>
           data_records out = map (project_row (header_record out)) ys \<and>
           (\<forall>n. r = Inr n \<longrightarrow> n = length ys \<and> n \<le> length (dict_rows f))"
proof -
  let ?keep = "\<lambda>row. keep_row False (is_match_row article_col match_values plant_col
                 plant_values ci row)"
  from stream_filter_csv_cases [OF assms]
  consider "out = Some []" "\<exists>e. r = Inl e"
    | hdr where "out = Some (hdr # map (project_row hdr) (filter ?keep (dict_rows f)))"
        "r = Inl CsvError \<or> r = Inr (length (filter ?keep (dict_rows f)))"
    by blast
  then show ?thesis
  proof cases
    case 1
    then have "subseq [] (dict_rows f) \<and>
        data_records out = map (project_row (header_record out)) [] \<and>
        (\<forall>n. r = Inr n \<longrightarrow> n = length ([]::row list) \<and> n \<le> length (dict_rows f))"
      by (auto simp: data_records_def)
    then show ?thesis by blast
  next
    case 2
    then have "subseq (filter ?keep (dict_rows f)) (dict_rows f) \<and>
        data_records out = map (project_row (header_record out)) (filter ?keep (dict_rows f)) \<and>
        (\<forall>n. r = Inr n \<longrightarrow> n = length (filter ?keep (dict_rows f)) \<and> n \<le> length (dict_rows f))"
      by (auto simp: data_records_def header_record_def)
    then show ?thesis by blast
  qed
qed

theorem filter_output_is_subsequence_witness:
  "\<exists>ys. subseq ys (dict_rows scenario_csv) \<and>
     [[''SKU1'', ''SYD'', ''5''], [''SKU1'', ''MEL'', ''2'']] =
       map (project_row [''article'', ''plant'', ''qty'']) ys \<and>
     length ys = 2 \<and> length ys \<le> length (dict_rows scenario_csv)"
proof -
  have h1: "scenario_fs ''in.csv'' = Some scenario_csv"
    by (simp add: scenario_fs_def)
  have h2: "stream_filter_csv scenario_fs ''in.csv'' ''article'' {''SKU1''} (Some ''plant'') None
       None False False =
     (Inr 2, Some [[''article'', ''plant'', ''qty''], [''SKU1'', ''SYD'', ''5''],
                   [''SKU1'', ''MEL'', ''2'']])"
    by code_simp
  from filter_output_is_subsequence [OF h1 h2]
  show ?thesis
    by (auto simp: data_records_def header_record_def eq_commute)
qed

lemma case_key_Nil:
  "case_key ci s = [] \<longleftrightarrow> s = []" "[] = case_key ci s \<longleftrightarrow> s = []"
  by (auto simp: case_key_def lower_def)

text \<open>
  Claim C3, as amended. With a secondary set that is not \<open>None\<close> and a secondary column
  whose name is not empty, a row is a final match exactly when its normalized primary value
  is a non-empty member of the match set and its normalized secondary value is a non-empty
  member of the secondary set; for a match set without the empty string (every set the
  key-set builder returns) the first condition is membership alone. A row whose secondary
  value trims to the empty string is never a final match. Scenario B writes row 1 only and
  returns 1.
\<close>

theorem secondary_filter_is_conjunction:
  assumes "pc \<noteq> []"
  shows "(is_match_row article_col match_values (Some pc) (Some ps) ci row \<longleftrightarrow>
            case_key ci (strip (get_or_empty row article_col)) \<noteq> [] \<and>
            case_key ci (strip (get_or_empty row article_col)) \<in> match_values \<and>
            case_key ci (strip (get_or_empty row pc)) \<noteq> [] \<and>
            case_key ci (strip (get_or_empty row pc)) \<in> ps) \<and>
         ([] \<notin> match_values \<longrightarrow>
            (is_match_row article_col match_values (Some pc) (Some ps) ci row \<longleftrightarrow>
               case_key ci (strip (get_or_empty row article_col)) \<in> match_values \<and>
               case_key ci (strip (get_or_empty row pc)) \<noteq> [] \<and>
               case_key ci (strip (get_or_empty row pc)) \<in> ps)) \<and>
         (strip (get_or_empty row pc) = [] \<longrightarrow>
            \<not> is_match_row article_col match_values (Some pc) (Some ps) ci row) \<and>
         stream_filter_csv scenario_fs ''in.csv'' ''article'' {''SKU1''} (Some ''plant'')
             (Some {''SYD''}) None False False =
           (Inr 1, Some [[''article'', ''plant'', ''qty''], [''SKU1'', ''SYD'', ''5'']])"
proof -
  have iff: "is_match_row article_col match_values (Some pc) (Some ps) ci row \<longleftrightarrow>
            case_key ci (strip (get_or_empty row article_col)) \<noteq> [] \<and>
            case_key ci (strip (get_or_empty row article_col)) \<in> match_values \<and>
            case_key ci (strip (get_or_empty row pc)) \<noteq> [] \<and>
            case_key ci (strip (get_or_empty row pc)) \<in> ps"
    using assms by (auto simp: is_match_row_def truthy_str_def Let_def)
  have lit: "[] \<notin> match_values \<longrightarrow>
            (is_match_row article_col match_values (Some pc) (Some ps) ci row \<longleftrightarrow>
               case_key ci (strip (get_or_empty row article_col)) \<in> match_values \<and>
               case_key ci (strip (get_or_empty row pc)) \<noteq> [] \<and>
               case_key ci (strip (get_or_empty row pc)) \<in> ps)"
    unfolding iff by auto
  have blank: "strip (get_or_empty row pc) = [] \<longrightarrow>
            \<not> is_match_row article_col match_values (Some pc) (Some ps) ci row"
    unfolding iff by (simp add: case_key_Nil)
  have b: "stream_filter_csv scenario_fs ''in.csv'' ''article'' {''SKU1''} (Some ''plant'')
             (Some {''SYD''}) None False False =
           (Inr 1, Some [[''article'', ''plant'', ''qty''], [''SKU1'', ''SYD'', ''5'']])"
    by code_simp
  from iff lit blank b show ?thesis by blast
qed

theorem secondary_filter_is_conjunction_witness:
  "''plant'' \<noteq> [] \<and> [] \<notin> {''SKU1''} \<and>
   \<not> is_match_row ''article'' {''SKU1''} (Some ''plant'') (Some {''SYD''}) False
       (make_row [''article'', ''plant'', ''qty''] [''SKU1'', ''MEL'', ''2'']) \<and>
   is_match_row ''article'' {''SKU1''} (Some ''plant'') (Some {''SYD''}) False
       (make_row [''article'', ''plant'', ''qty''] [''SKU1'', ''SYD'', ''5'']) \<and>
   strip (get_or_empty (make_row [''article'', ''plant'', ''qty''] [''SKU1'']) ''plant'') = [] \<and>
   \<not> is_match_row ''article'' {''SKU1''} (Some ''plant'') (Some {''SYD''}) False
       (make_row [''article'', ''plant'', ''qty''] [''SKU1''])"
proof -
  have h: "''plant'' \<noteq> []" by simp
  have m: "[] \<notin> {''SKU1''}" by simp
  have v: "case_key False (strip (get_or_empty
             (make_row [''article'', ''plant'', ''qty''] [''SKU1'', ''MEL'', ''2'']) ''plant'')) = ''MEL''"
    "case_key False (strip (get_or_empty
             (make_row [''article'', ''plant'', ''qty''] [''SKU1'', ''SYD'', ''5'']) ''plant'')) = ''SYD''"
    "case_key False (strip (get_or_empty
             (make_row [''article'', ''plant'', ''qty''] [''SKU1'', ''SYD'', ''5'']) ''article'')) = ''SKU1''"
    by code_simp+
  have e: "strip (get_or_empty (make_row [''article'', ''plant'', ''qty''] [''SKU1'']) ''plant'') = []"
    by code_simp
  have 1: "\<not> is_match_row ''article'' {''SKU1''} (Some ''plant'') (Some {''SYD''}) False
       (make_row [''article'', ''plant'', ''qty''] [''SKU1'', ''MEL'', ''2''])"
    using secondary_filter_is_conjunction [OF h, of "''article''" "{''SKU1''}" "{''SYD''}" False
      "make_row [''article'', ''plant'', ''qty''] [''SKU1'', ''MEL'', ''2'']"]
    by (simp add: v)
  have 2: "is_match_row ''article'' {''SKU1''} (Some ''plant'') (Some {''SYD''}) False
       (make_row [''article'', ''plant'', ''qty''] [''SKU1'', ''SYD'', ''5''])"
    using secondary_filter_is_conjunction [OF h, of "''article''" "{''SKU1''}" "{''SYD''}" False
      "make_row [''article'', ''plant'', ''qty''] [''SKU1'', ''SYD'', ''5'']"]
    by (simp add: v)
  have 3: "\<not> is_match_row ''article'' {''SKU1''} (Some ''plant'') (Some {''SYD''}) False
       (make_row [''article'', ''plant'', ''qty''] [''SKU1''])"
    using secondary_filter_is_conjunction [OF h, of "''article''" "{''SKU1''}" "{''SYD''}" False
      "make_row [''article'', ''plant'', ''qty''] [''SKU1'']"] e
    by blast
  from h m 1 2 e 3 show ?thesis by blast
qed

text \<open>
  The claim as worded fails for a secondary column that is given but has the empty name: the
  guard \<open>plant_values is not None and plant_col\<close> is false then, and the row
  \<open>SKU1, MEL\<close> is a final match although \<open>MEL\<close> is not in the secondary set.
\<close>

theorem secondary_filter_empty_column_counterexample:
  "is_match_row ''article'' {''SKU1''} (Some []) (Some {''SYD''}) False
       (make_row [''article'', [], ''qty''] [''SKU1'', ''MEL'', ''2'']) \<and>
   case_key False (strip (get_or_empty
       (make_row [''article'', [], ''qty''] [''SKU1'', ''MEL'', ''2'']) [])) \<notin> {''SYD''} \<and>
   stream_filter_csv [''in.csv'' \<mapsto> unnamed_column_csv] ''in.csv'' ''article'' {''SKU1''}
       (Some []) (Some {''SYD''}) None False False =
     (Inr 2, Some [[''article'', [], ''qty''], [''SKU1'', ''SYD'', ''5''], [''SKU1'', ''MEL'', ''2'']])"
  by code_simp




section \<open>Properties of the filter tool\<close>

text \<open>
  Claim C8. When the key-set builder returns the empty set, \<open>main\<close> returns 2 with the
  message for missing criteria and never opens the output file, whatever the input file is.
  Exit code 2 and that message occur in no other case; a run that gets as far as a returning
  filter, with any count and so with the count 0, returns 0 and reports the count.
\<close>

theorem empty_match_set_is_distinct_failure:
  "(read_sku_list fs (sku a) (sku_file a) (sku_file_column a) (case_insensitive a) = Inr {} \<longrightarrow>
      main fs a = \<lparr>exit_code = 2, stdout = [], stderr = [NoCriteria], output_file = None\<rparr>) \<and>
   (exit_code (main fs a) = 2 \<longleftrightarrow>
      read_sku_list fs (sku a) (sku_file a) (sku_file_column a) (case_insensitive a) = Inr {}) \<and>
   (stderr (main fs a) = [NoCriteria] \<longleftrightarrow>
      read_sku_list fs (sku a) (sku_file a) (sku_file_column a) (case_insensitive a) = Inr {}) \<and>
   (read_sku_list fs (sku a) (sku_file a) (sku_file_column a) (case_insensitive a) = Inr ms \<and>
    ms \<noteq> {} \<and>
    stream_filter_csv fs (input_csv a) (csv_article_column a) ms (Some (csv_plant_column a))
      (plant_values_of (case_insensitive a) (plant a)) (select_columns_of (columns a))
      (case_insensitive a) (invert a) = (Inr n, out) \<longrightarrow>
      main fs a = \<lparr>exit_code = 0, stdout = [Wrote n (output_csv a)], stderr = [],
                   output_file = out\<rparr>)"
  by (cases "read_sku_list fs (sku a) (sku_file a) (sku_file_column a) (case_insensitive a)")
     (auto simp: main_def Let_def split: prod.splits sum.splits)

theorem empty_match_set_is_distinct_failure_witness:
  "main scenario_fs (scenario_args\<lparr>sku := None\<rparr>) =
     \<lparr>exit_code = 2, stdout = [], stderr = [NoCriteria], output_file = None\<rparr> \<and>
   main scenario_fs (scenario_args\<lparr>sku := Some [''SKU9'']\<rparr>) =
     \<lparr>exit_code = 0, stdout = [Wrote 0 ''out.csv''], stderr = [],
      output_file = Some [[''article'', ''plant'', ''qty'']]\<rparr>"
proof -
  have e: "read_sku_list scenario_fs (sku (scenario_args\<lparr>sku := None\<rparr>))
             (sku_file (scenario_args\<lparr>sku := None\<rparr>))
             (sku_file_column (scenario_args\<lparr>sku := None\<rparr>))
             (case_insensitive (scenario_args\<lparr>sku := None\<rparr>)) = Inr {}"
    by (simp add: read_sku_list_def scenario_args_def truthy_list_def truthy_str_def)
  have k: "read_sku_list scenario_fs (sku (scenario_args\<lparr>sku := Some [''SKU9'']\<rparr>))
             (sku_file (scenario_args\<lparr>sku := Some [''SKU9'']\<rparr>))
             (sku_file_column (scenario_args\<lparr>sku := Some [''SKU9'']\<rparr>))
             (case_insensitive (scenario_args\<lparr>sku := Some [''SKU9'']\<rparr>)) = Inr {''SKU9''}"
    by code_simp
  have ne: "{''SKU9''} \<noteq> ({}::string set)" by simp
  have r: "stream_filter_csv scenario_fs (input_csv (scenario_args\<lparr>sku := Some [''SKU9'']\<rparr>))
      (csv_article_column (scenario_args\<lparr>sku := Some [''SKU9'']\<rparr>)) {''SKU9''}
      (Some (csv_plant_column (scenario_args\<lparr>sku := Some [''SKU9'']\<rparr>)))
      (plant_values_of (case_insensitive (scenario_args\<lparr>sku := Some [''SKU9'']\<rparr>))
         (plant (scenario_args\<lparr>sku := Some [''SKU9'']\<rparr>)))
      (select_columns_of (columns (scenario_args\<lparr>sku := Some [''SKU9'']\<rparr>)))
      (case_insensitive (scenario_args\<lparr>sku := Some [''SKU9'']\<rparr>))
      (invert (scenario_args\<lparr>sku := Some [''SKU9'']\<rparr>)) =
      (Inr 0, Some [[''article'', ''plant'', ''qty'']])"
    by code_simp
  have o: "output_csv (scenario_args\<lparr>sku := Some [''SKU9'']\<rparr>) = ''out.csv''"
    by (simp add: scenario_args_def)
  from empty_match_set_is_distinct_failure [of scenario_fs "scenario_args\<lparr>sku := None\<rparr>"] e
  have 1: "main scenario_fs (scenario_args\<lparr>sku := None\<rparr>) =
     \<lparr>exit_code = 2, stdout = [], stderr = [NoCriteria], output_file = None\<rparr>"
    by blast
  from empty_match_set_is_distinct_failure [of scenario_fs
      "scenario_args\<lparr>sku := Some [''SKU9'']\<rparr>" "{''SKU9''}" 0
      "Some [[''article'', ''plant'', ''qty'']]"] k ne r
  have 2: "main scenario_fs (scenario_args\<lparr>sku := Some [''SKU9'']\<rparr>) =
     \<lparr>exit_code = 0, stdout = [Wrote 0 (output_csv (scenario_args\<lparr>sku := Some [''SKU9'']\<rparr>))],
      stderr = [], output_file = Some [[''article'', ''plant'', ''qty'']]\<rparr>"
    by blast
  from 1 2 o show ?thesis by simp
qed

lemma plant_values_of_blank:
  "\<forall>p\<in>set ps. strip p = [] \<Longrightarrow> plant_values_of ci (Some ps) = None"
  by (simp add: plant_values_of_def truthy_list_def filter_empty_conv Let_def)

text \<open>
  Claim C10. When every value given with \<open>--plant\<close> trims to the empty string, the secondary
  set becomes \<open>None\<close>, and \<open>main\<close> gives the result it gives without \<open>--plant\<close>: the
  same exit code, messages and output file. With the secondary set \<open>None\<close> a row matches on
  its primary value alone.
\<close>

theorem blank_plants_mean_no_secondary_filter:
  assumes "\<forall>p\<in>set ps. strip p = []"
  shows "plant_values_of (case_insensitive a) (Some ps) = None \<and>
         main fs (a\<lparr>plant := Some ps\<rparr>) = main fs (a\<lparr>plant := None\<rparr>) \<and>
         (is_match_row article_col match_values plant_col None ci row \<longleftrightarrow>
            case_key ci (strip (get_or_empty row article_col)) \<noteq> [] \<and>
            case_key ci (strip (get_or_empty row article_col)) \<in> match_values)"
proof -
  have 1: "plant_values_of (case_insensitive a) (Some ps) = None"
    using assms by (rule plant_values_of_blank)
  have 2: "plant_values_of (case_insensitive a) None = None"
    by (simp add: plant_values_of_def truthy_list_def)
  have 3: "main fs (a\<lparr>plant := Some ps\<rparr>) = main fs (a\<lparr>plant := None\<rparr>)"
  proof (cases "read_sku_list fs (sku a) (sku_file a) (sku_file_column a) (case_insensitive a)")
    case (Inl e)
    then show ?thesis by (simp add: main_def)
  next
    case (Inr ms)
    then show ?thesis by (simp add: main_def 1 2 Let_def split: prod.splits sum.splits)
  qed
  have 4: "is_match_row article_col match_values plant_col None ci row \<longleftrightarrow>
            case_key ci (strip (get_or_empty row article_col)) \<noteq> [] \<and>
            case_key ci (strip (get_or_empty row article_col)) \<in> match_values"
    by (simp add: is_match_row_def Let_def)
  from 1 3 4 show ?thesis by blast
qed

theorem blank_plants_mean_no_secondary_filter_witness:
  "main scenario_fs (scenario_args\<lparr>plant := Some ['' '', []]\<rparr>) =
     \<lparr>exit_code = 0, stdout = [Wrote 2 ''out.csv''], stderr = [],
      output_file = Some [[''article'', ''plant'', ''qty''], [''SKU1'', ''SYD'', ''5''],
                         [''SKU1'', ''MEL'', ''2'']]\<rparr>"
proof -
  have h: "\<forall>p\<in>set ['' '', []]. strip p = []"
    by (simp add: strip_def is_space_def)
  have m: "main scenario_fs (scenario_args\<lparr>plant := None\<rparr>) =
     \<lparr>exit_code = 0, stdout = [Wrote 2 ''out.csv''], stderr = [],
      output_file = Some [[''article'', ''plant'', ''qty''], [''SKU1'', ''SYD'', ''5''],
                         [''SKU1'', ''MEL'', ''2'']]\<rparr>"
    by code_simp
  from blank_plants_mean_no_secondary_filter [OF h, of scenario_args scenario_fs] m
  show ?thesis by simp
qed

section \<open>Properties of the key-set builder\<close>










section \<open>Properties of the uniqueness extractor\<close>

lemma accumulate_snoc:
  "accumulate ci (cells @ [c]) = count_value ci c (accumulate ci cells)"
  by (simp add: accumulate_def)

lemma acc_invariant_pointwise:
  "acc_invariant st \<longleftrightarrow>
     distinct (order st) \<and> (\<forall>k. k \<in> set (order st) \<longleftrightarrow> counts st k \<noteq> None) \<and>
     (\<forall>k. k \<in> set (order st) \<longleftrightarrow> display st k \<noteq> None) \<and>
     (\<forall>k n. counts st k = Some n \<longrightarrow> 1 \<le> n)"
  unfolding acc_invariant_def by (auto simp: dom_def set_eq_iff)

lemma acc_invariant_empty: "acc_invariant empty_acc"
  by (simp add: acc_invariant_def empty_acc_def)

lemma count_value_blank: "strip cell = [] \<Longrightarrow> count_value ci cell st = st"
  by (simp add: count_value_def)

lemma count_value_new:
  "strip cell \<noteq> [] \<Longrightarrow> counts st (case_key ci (strip cell)) = None \<Longrightarrow>
   count_value ci cell st =
     st\<lparr>order := order st @ [case_key ci (strip cell)],
        display := (display st)(case_key ci (strip cell) \<mapsto> strip cell),
        counts := (counts st)(case_key ci (strip cell) \<mapsto> 1)\<rparr>"
  by (simp add: count_value_def Let_def)

lemma count_value_seen:
  "strip cell \<noteq> [] \<Longrightarrow> counts st (case_key ci (strip cell)) = Some n \<Longrightarrow>
   count_value ci cell st = st\<lparr>counts := (counts st)(case_key ci (strip cell) \<mapsto> n + 1)\<rparr>"
  by (simp add: count_value_def Let_def)

lemma acc_invariant_step:
  assumes "acc_invariant st"
  shows "acc_invariant (count_value ci cell st)"
proof (cases "strip cell = []")
  case True
  then show ?thesis using assms by (simp add: count_value_blank)
next
  case False
  show ?thesis
  proof (cases "counts st (case_key ci (strip cell))")
    case None
    with assms have "case_key ci (strip cell) \<notin> set (order st)"
      by (simp add: acc_invariant_pointwise)
    with assms show ?thesis
      unfolding count_value_new [OF False None] acc_invariant_pointwise by auto
  next
    case (Some n)
    with assms have "1 \<le> n" by (simp add: acc_invariant_def)
    then have "1 \<le> n + 1" by simp
    with assms Some show ?thesis
      unfolding count_value_seen [OF False Some] acc_invariant_pointwise by auto
  qed
qed

lemma acc_invariant_accumulate: "acc_invariant (accumulate ci cells)"
proof (induction cells rule: rev_induct)
  case Nil
  show ?case by (simp add: accumulate_def acc_invariant_empty)
next
  case (snoc c cells)
  then show ?case by (simp add: accumulate_snoc acc_invariant_step)
qed

text \<open>
  Claim C9. The invariant of the tables holds before the pass, every row keeps it, and so it
  holds after the pass over any sequence of cells: the order list has no key twice, its keys
  are the keys of the counts table and of the display table, and every count is at least 1.
\<close>

theorem accumulation_invariant:
  "acc_invariant empty_acc \<and>
   (acc_invariant st \<longrightarrow> acc_invariant (count_value ci cell st)) \<and>
   acc_invariant (accumulate ci cells)"
  using acc_invariant_empty acc_invariant_step acc_invariant_accumulate by blast

theorem accumulation_invariant_witness:
  "acc_invariant (count_value True ''b'' (accumulate True [''B'', ''a''])) \<and>
   count_value True ''b'' (accumulate True [''B'', ''a'']) = accumulate True [''B'', ''a'', ''b''] \<and>
   order (accumulate True [''B'', ''a'', ''b'']) = [''b'', ''a''] \<and>
   map (counts (accumulate True [''B'', ''a'', ''b''])) [''b'', ''a'', ''B''] = [Some 2, Some 1, None] \<and>
   map (display (accumulate True [''B'', ''a'', ''b''])) [''b'', ''a'', ''B''] =
     [Some ''B'', Some ''a'', None]"
proof -
  from accumulation_invariant [of "accumulate True [''B'', ''a'']" True "''b''" "[''B'', ''a'']"]
  have "acc_invariant (count_value True ''b'' (accumulate True [''B'', ''a'']))"
    by blast
  moreover have "count_value True ''b'' (accumulate True [''B'', ''a'']) =
      accumulate True [''B'', ''a'', ''b'']"
    by (simp add: accumulate_def)
  moreover have "order (accumulate True [''B'', ''a'', ''b'']) = [''b'', ''a'']"
    by code_simp
  moreover have "map (counts (accumulate True [''B'', ''a'', ''b''])) [''b'', ''a'', ''B''] =
      [Some 2, Some 1, None]"
    by code_simp
  moreover have "map (display (accumulate True [''B'', ''a'', ''b''])) [''b'', ''a'', ''B''] =
     [Some ''B'', Some ''a'', None]"
    by code_simp
  ultimately show ?thesis by blast
qed


lemma find_snoc:
  "find P (xs @ [x]) =
     (case find P xs of Some y \<Rightarrow> Some y | None \<Rightarrow> if P x then Some x else None)"
  by (induction xs) simp_all

lemma display_accumulate:
  "display (accumulate ci cells) k =
     map_option strip (find (\<lambda>c. strip c \<noteq> [] \<and> case_key ci (strip c) = k) cells)"
proof (induction cells rule: rev_induct)
  case Nil
  show ?case by (simp add: accumulate_def empty_acc_def)
next
  case (snoc c cells)
  have inv: "acc_invariant (accumulate ci cells)" by (rule acc_invariant_accumulate)
  then have none: "counts (accumulate ci cells) x = None \<longleftrightarrow> display (accumulate ci cells) x = None" for x
    unfolding acc_invariant_pointwise by metis
  show ?case
  proof (cases "strip c = []")
    case True
    with snoc show ?thesis
      by (simp add: accumulate_snoc count_value_def find_snoc split: option.splits)
  next
    case False
    show ?thesis
    proof (cases "counts (accumulate ci cells) (case_key ci (strip c))")
      case None
      with False snoc none [of "case_key ci (strip c)"] show ?thesis
        by (auto simp: accumulate_snoc count_value_def Let_def find_snoc split: option.splits)
    next
      case (Some n)
      with False snoc none [of "case_key ci (strip c)"] show ?thesis
        by (auto simp: accumulate_snoc count_value_def Let_def find_snoc split: option.splits)
    qed
  qed
qed

lemma order_in_display:
  assumes "acc_invariant st" "k \<in> set (order st)"
  shows "\<exists>v. display st k = Some v"
proof -
  from assms(1) have "set (order st) = dom (display st)"
    unfolding acc_invariant_def by blast
  with assms(2) have "k \<in> dom (display st)" by blast
  then show ?thesis by blast
qed

lemma display_values_Inr:
  "set ks \<subseteq> dom d \<Longrightarrow> display_values d ks = Inr (map (\<lambda>k. the (d k)) ks)"
  by (induction ks) auto

lemma key_of_display:
  assumes "display (accumulate ci cells) k = Some v"
  shows "case_key ci v = k \<and> v \<noteq> []"
proof -
  from assms obtain c where "find (\<lambda>c. strip c \<noteq> [] \<and> case_key ci (strip c) = k) cells = Some c"
    and "v = strip c"
    by (auto simp: display_accumulate)
  then show ?thesis by (auto simp: find_Some_iff)
qed


text \<open>The values selected after the pass, before the sort.\<close>

lemma select_values_accumulate:
  "select_values (accumulate ci cells) ci sort_values exactly_once =
     Inr ((if sort_values then sort_key (case_key ci) else (\<lambda>xs. xs))
            (filter (\<lambda>v. exactly_once \<longrightarrow> count_of (accumulate ci cells) (case_key ci v) = 1)
               (map (\<lambda>k. the (display (accumulate ci cells) k)) (order (accumulate ci cells)))))"
proof -
  let ?st = "accumulate ci cells"
  let ?g = "\<lambda>k. the (display ?st k)"
  have inv: "acc_invariant ?st" by (rule acc_invariant_accumulate)
  then have dom: "set (order ?st) \<subseteq> dom (display ?st)"
    unfolding acc_invariant_def by blast
  have key: "case_key ci (?g k) = k" if "k \<in> set (order ?st)" for k
  proof -
    from that dom obtain v where "display ?st k = Some v" by blast
    then show ?thesis using key_of_display [of ci cells k v] by simp
  qed
  have flt: "filter (\<lambda>v. exactly_once \<longrightarrow> count_of ?st (case_key ci v) = 1) (map ?g (order ?st)) =
      map ?g (filter (\<lambda>k. exactly_once \<longrightarrow> count_of ?st k = 1) (order ?st))"
    unfolding filter_map by (rule arg_cong [where f = "map ?g"], rule filter_cong) (simp_all add: key)
  have sub: "set (filter (\<lambda>k. exactly_once \<longrightarrow> count_of ?st k = 1) (order ?st)) \<subseteq> dom (display ?st)"
    using dom by auto
  have ks: "(if exactly_once then filter (\<lambda>k. count_of ?st k = 1) (order ?st) else order ?st) =
      filter (\<lambda>k. exactly_once \<longrightarrow> count_of ?st k = 1) (order ?st)"
    by simp
  show ?thesis
    unfolding select_values_def ks display_values_Inr [OF sub] flt by simp
qed

lemma read_unique_values_Inr:
  assumes "fs path = Some f" "target_cells f column no_header = Inr cells"
    and "read_unique_values fs path column no_header ci sort_values exactly_once = Inr vs"
  shows "\<not> csv_error f"
  using assms by (auto simp: read_unique_values_def split: if_splits)

lemma read_unique_values_eq:
  assumes "fs path = Some f" "target_cells f column no_header = Inr cells" "\<not> csv_error f"
  shows "read_unique_values fs path column no_header ci sort_values exactly_once =
     Inr ((if sort_values then sort_key (case_key ci) else (\<lambda>xs. xs))
            (filter (\<lambda>v. exactly_once \<longrightarrow> count_of (accumulate ci cells) (case_key ci v) = 1)
               (map (\<lambda>k. the (display (accumulate ci cells) k)) (order (accumulate ci cells)))))"
  using assms by (simp add: read_unique_values_def select_values_accumulate)

lemma unsorted_values:
  assumes "v \<in> set (map (\<lambda>k. the (display (accumulate ci cells) k)) (order (accumulate ci cells)))"
  shows "display (accumulate ci cells) (case_key ci v) = Some v \<and>
         case_key ci v \<in> set (order (accumulate ci cells))"
proof -
  let ?st = "accumulate ci cells"
  have inv: "acc_invariant ?st" by (rule acc_invariant_accumulate)
  from assms obtain k where k: "k \<in> set (order ?st)" "v = the (display ?st k)" by auto
  with order_in_display [OF inv] obtain w where w: "display ?st k = Some w"
    by blast
  with k have "v = w" by simp
  with w key_of_display [of ci cells k w] k show ?thesis by simp
qed

lemma distinct_unsorted_keys:
  "distinct (map (case_key ci)
     (map (\<lambda>k. the (display (accumulate ci cells) k)) (order (accumulate ci cells))))"
proof -
  let ?st = "accumulate ci cells"
  have inv: "acc_invariant ?st" by (rule acc_invariant_accumulate)
  have "map (case_key ci) (map (\<lambda>k. the (display ?st k)) (order ?st)) = map (\<lambda>k. k) (order ?st)"
    unfolding map_map
  proof (rule map_cong [OF refl])
    fix k assume "k \<in> set (order ?st)"
    with order_in_display [OF inv] obtain w where w: "display ?st k = Some w"
      by blast
    with key_of_display [of ci cells k w] show "(case_key ci \<circ> (\<lambda>k. the (display ?st k))) k = k"
      by simp
  qed
  with inv show ?thesis by (simp add: acc_invariant_def)
qed



text \<open>
  Claim C4. With \<open>sort_values\<close> the result is the stable sort of the result without it
  (the kept values in first-seen order) under the key \<open>lower\<close> when \<open>case_insensitive\<close> is
  set and under the value itself otherwise: a permutation, ascending in the lexicographic
  order of the keys, with values of equal key in their first-seen order. No two values share a
  key, and each value is the trimmed form of the first cell with its key. Scenario E gives
  \<open>a, B\<close>. Strings are compared character by character, characters by their code.
\<close>

theorem sorted_output_is_stable_sort:
  assumes "fs path = Some f" "target_cells f column no_header = Inr cells"
    and "read_unique_values fs path column no_header ci True exactly_once = Inr vs"
  shows "(\<exists>us. read_unique_values fs path column no_header ci False exactly_once = Inr us \<and>
            vs = sort_key (case_key ci) us \<and> mset vs = mset us \<and>
            (\<forall>k. filter (\<lambda>v. case_key ci v = k) vs = filter (\<lambda>v. case_key ci v = k) us)) \<and>
         sorted (map (case_key ci) vs) \<and>
         (if ci then sorted (map lower vs) else sorted vs) \<and>
         distinct (map (case_key ci) vs) \<and>
         (\<forall>v\<in>set vs. map_option strip (find (\<lambda>c. strip c \<noteq> [] \<and>
              case_key ci (strip c) = case_key ci v) cells) = Some v) \<and>
         read_unique_values [''in.csv'' \<mapsto> scenario_e_csv] ''in.csv'' None False True True False =
           Inr [''a'', ''B'']"
proof -
  let ?st = "accumulate ci cells"
  let ?all = "map (\<lambda>k. the (display ?st k)) (order ?st)"
  let ?us = "filter (\<lambda>v. exactly_once \<longrightarrow> count_of ?st (case_key ci v) = 1) ?all"
  have ok: "\<not> csv_error f"
    using assms by (rule read_unique_values_Inr)
  have eq: "read_unique_values fs path column no_header ci s e =
     Inr ((if s then sort_key (case_key ci) else (\<lambda>xs. xs))
            (filter (\<lambda>v. e \<longrightarrow> count_of ?st (case_key ci v) = 1) ?all))" for s e
    using assms(1,2) ok by (rule read_unique_values_eq)
  have vs: "vs = sort_key (case_key ci) ?us"
    using eq [of True exactly_once] assms(3) by simp
  have us: "read_unique_values fs path column no_header ci False exactly_once = Inr ?us"
    using eq [of False exactly_once] by simp
  have stable: "\<forall>k. filter (\<lambda>v. case_key ci v = k) vs = filter (\<lambda>v. case_key ci v = k) ?us"
    unfolding vs by (simp add: sort_key_stable)
  have perm: "mset vs = mset ?us" unfolding vs by simp
  have srt: "sorted (map (case_key ci) vs)" unfolding vs by simp
  then have srt': "if ci then sorted (map lower vs) else sorted vs"
    by (cases ci) (simp_all add: case_key_def [abs_def])
  have "distinct (map (case_key ci) ?us)"
    using distinct_unsorted_keys [of ci cells] by (rule distinct_map_filter)
  moreover have "mset (map (case_key ci) vs) = mset (map (case_key ci) ?us)"
    using perm by (metis mset_map)
  ultimately have dist: "distinct (map (case_key ci) vs)"
    by (metis mset_eq_imp_distinct_iff)
  have first: "\<forall>v\<in>set vs. map_option strip (find (\<lambda>c. strip c \<noteq> [] \<and>
              case_key ci (strip c) = case_key ci v) cells) = Some v"
  proof
    fix v assume "v \<in> set vs"
    then have "v \<in> set ?all" unfolding vs by simp
    then have "display ?st (case_key ci v) = Some v" by (simp only: unsorted_values)
    then show "map_option strip (find (\<lambda>c. strip c \<noteq> [] \<and>
              case_key ci (strip c) = case_key ci v) cells) = Some v"
      by (simp add: display_accumulate)
  qed
  have e: "read_unique_values [''in.csv'' \<mapsto> scenario_e_csv] ''in.csv'' None False True True False =
           Inr [''a'', ''B'']"
    by code_simp
  from us vs perm stable srt srt' dist first e show ?thesis by blast
qed

theorem sorted_output_is_stable_sort_witness:
  "read_unique_values [''in.csv'' \<mapsto> scenario_e_csv] ''in.csv'' None False True False False =
     Inr [''B'', ''a''] \<and>
   [''a'', ''B''] = sort_key (case_key True) [''B'', ''a''] \<and>
   sorted (map lower [''a'', ''B'']) \<and>
   map_option strip (find (\<lambda>c. strip c \<noteq> [] \<and> case_key True (strip c) = case_key True ''B'')
     [''B'', ''a'', ''b'']) = Some ''B''"
proof -
  have f: "[''in.csv'' \<mapsto> scenario_e_csv] ''in.csv'' = Some scenario_e_csv" by simp
  have c: "target_cells scenario_e_csv None False = Inr [''B'', ''a'', ''b'']"
    by code_simp
  have r: "read_unique_values [''in.csv'' \<mapsto> scenario_e_csv] ''in.csv'' None False True True
      False = Inr [''a'', ''B'']"
    by code_simp
  have u: "read_unique_values [''in.csv'' \<mapsto> scenario_e_csv] ''in.csv'' None False True False
      False = Inr [''B'', ''a'']"
    by code_simp
  note t = sorted_output_is_stable_sort [where fs = "[''in.csv'' \<mapsto> scenario_e_csv]"
      and path = "''in.csv''", OF f c r]
  from t u have 1: "[''a'', ''B''] = sort_key (case_key True) [''B'', ''a'']"
    by auto
  from t have 2: "sorted (map lower [''a'', ''B''])"
    by simp
  from t have "\<forall>v\<in>set [''a'', ''B'']. map_option strip (find (\<lambda>c. strip c \<noteq> [] \<and>
      case_key True (strip c) = case_key True v) [''B'', ''a'', ''b'']) = Some v"
    by blast
  then have 3: "map_option strip (find (\<lambda>c. strip c \<noteq> [] \<and>
      case_key True (strip c) = case_key True ''B'') [''B'', ''a'', ''b'']) = Some ''B''"
    by simp
  from u 1 2 3 show ?thesis by blast
qed

end
